theory Spec2Isabelle
  imports Complex_Main
begin

section \<open>The shared queue state (utils/queryQueue.ts)\<close>

text \<open>
  The record stored in \<open>queryState.calls\<close> for one invocation of the queued function.
  The field \<open>retries\<close> is optional in the source (\<open>retries?: number\<close>), so it is an
  option here; the arguments and the wrapped function are kept as the source stores them.
\<close>

record ('a, 'f) call =
  args :: 'a
  timestamp :: int
  func :: 'f
  retries :: "int option"

text \<open>
  \<open>interface QueryState\<close>. The counters are JavaScript numbers that only ever move by one,
  so they are unbounded integers. \<open>currentActiveCalls\<close> is an object whose values are
  always \<open>true\<close>: only its key set matters, and \<open>Object.keys(...).length\<close> is the
  cardinality of that set. \<open>calls\<close> is a dictionary from call index to call record.
\<close>

record ('a, 'f) QueryState =
  numberOfCalls :: int
  numberOfFailures :: int
  currentActiveCalls :: "int set"
  calls :: "int \<rightharpoonup> ('a, 'f) call"

definition MAX_RETRIES_PER_DAY :: int where
  "MAX_RETRIES_PER_DAY = 300"

definition MAX_ACTIVE_CALLS :: nat where
  "MAX_ACTIVE_CALLS = 5"

definition areActiveCallsFull :: "('a, 'f) QueryState \<Rightarrow> bool" where
  "areActiveCallsFull queryState = (MAX_ACTIVE_CALLS \<le> card (currentActiveCalls queryState))"

text \<open>
  \<open>Math.pow(2, e)\<close> for an integer exponent. Powers of two are exact in double precision
  (down to the exponent \<open>-1074\<close>), so the value is a rational number.
\<close>

definition Math_pow2 :: "int \<Rightarrow> rat" where
  "Math_pow2 e = (if 0 \<le> e then 2 ^ nat e else 1 / 2 ^ nat (- e))"

text \<open>\<open>c.retries || 0\<close>: a missing counter reads as zero.\<close>

definition retriesOrZero :: "('a, 'f) call \<Rightarrow> int" where
  "retriesOrZero c = (case retries c of None \<Rightarrow> 0 | Some n \<Rightarrow> n)"

section \<open>The scheduler and the executor, one synchronous segment at a time\<close>

text \<open>
  \<open>retryCallback\<close> reads the state, computes \<open>isFull\<close> and \<open>backOff\<close>, and hands the timer
  callback to \<open>setTimeout\<close>. It changes nothing in the state; what it contributes is the
  timeout it passes, which is the value of this function.
\<close>

definition backOff :: "('a, 'f) QueryState \<Rightarrow> rat" where
  "backOff queryState =
     Math_pow2 (if numberOfFailures queryState > 3 then 3 else numberOfFailures queryState)"

definition retryCallback :: "('a, 'f) QueryState \<Rightarrow> rat" where
  "retryCallback queryState =
     (let isFull = areActiveCallsFull queryState
      in if isFull then 100 + backOff queryState else backOff queryState)"

text \<open>
  \<open>attemptCallbackRun\<close> is cut at its \<open>await func(...args)\<close>: the part before the await
  marks the index active and starts the unit of work; the part after it runs only when the
  unit of work fulfils (the promise is resolved by the caller of this function, see
  \<open>step\<close>), and is skipped altogether when the unit of work fails.
\<close>

definition attemptCallbackRun_begin :: "int \<Rightarrow> ('a, 'f) QueryState \<Rightarrow> ('a, 'f) QueryState" where
  "attemptCallbackRun_begin index queryState =
     queryState\<lparr>currentActiveCalls := insert index (currentActiveCalls queryState)\<rparr>"

definition attemptCallbackRun_end :: "int \<Rightarrow> ('a, 'f) QueryState \<Rightarrow> ('a, 'f) QueryState" where
  "attemptCallbackRun_end index queryState =
     queryState\<lparr>currentActiveCalls := currentActiveCalls queryState - {index},
                numberOfCalls := numberOfCalls queryState - 1\<rparr>"

text \<open>
  Errors raised inside the timer callback. Reading \<open>.retries\<close> of a record that has been
  deleted is a \<open>TypeError\<close>; the other is \<open>new Error('Max retries exceeded')\<close>.
\<close>

datatype error = MaxRetriesExceeded | TypeError

text \<open>
  \<open>handleRunErrorsAndRetries\<close>: the new state, and either the error it throws or the timeout
  of the timer that its call of \<open>retryFunc\<close> (always \<open>retryCallback\<close>) sets.
\<close>

definition handleRunErrorsAndRetries ::
  "int \<Rightarrow> ('a, 'f) QueryState \<Rightarrow> ('a, 'f) QueryState \<times> (error + rat)" where
  "handleRunErrorsAndRetries index queryState =
     (case calls queryState index of
        None \<Rightarrow> (queryState, Inl TypeError)
      | Some c \<Rightarrow>
          (let currentRetryCount = retriesOrZero c
           in if currentRetryCount > MAX_RETRIES_PER_DAY
              then (queryState\<lparr>currentActiveCalls := currentActiveCalls queryState - {index},
                               calls := (calls queryState)(index := None)\<rparr>,
                    Inl MaxRetriesExceeded)
              else (let queryState' = queryState
                          \<lparr>numberOfFailures := numberOfFailures queryState + 1,
                           calls := (calls queryState)
                              (index \<mapsto> c\<lparr>retries := Some (currentRetryCount + 1)\<rparr>)\<rparr>
                    in (queryState', Inr (retryCallback queryState')))))"

text \<open>
  The rest of the timer callback after \<open>await attemptCallbackRun(...)\<close> has returned: the
  recovery check of lines 74 to 76. When the record is gone the property read throws inside
  the \<open>try\<close>, so the \<open>catch\<close> block runs \<open>handleRunErrorsAndRetries\<close>.
\<close>

definition afterAttempt ::
  "int \<Rightarrow> ('a, 'f) QueryState \<Rightarrow> ('a, 'f) QueryState \<times> (error + rat) option" where
  "afterAttempt index queryState =
     (case calls queryState index of
        None \<Rightarrow> (let (queryState', r) = handleRunErrorsAndRetries index queryState
                 in (queryState', Some r))
      | Some c \<Rightarrow>
          (if retriesOrZero c > 0
           then (queryState\<lparr>numberOfFailures := numberOfFailures queryState - 1\<rparr>, None)
           else (queryState, None)))"

section \<open>Invocations, promises and the event loop\<close>

datatype 'v promise = Pending | Resolved 'v | Rejected error

text \<open>Calling \<open>resolve\<close> settles a pending promise and does nothing to a settled one.\<close>

definition resolve :: "'v \<Rightarrow> 'v promise \<Rightarrow> 'v promise" where
  "resolve v p = (case p of Pending \<Rightarrow> Resolved v | _ \<Rightarrow> p)"

text \<open>
  Where one invocation of the queued function stands: its timer is set with the given
  timeout; its unit of work is in flight; \<open>attemptCallbackRun\<close> has returned and the rest of
  the timer callback is queued; the timer callback has completed; or the timer callback has
  thrown, which nobody observes.
\<close>

datatype phase = Waiting rat | Running | Returned | Finished | Crashed error

record 'v invocation =
  callIndex :: int
  phase :: phase
  promise :: "'v promise"

text \<open>
  What \<open>queryQueue(func)\<close> closes over: the wrapped function and the one state object; with
  it, the invocations made so far, in order (an invocation is named by its position).
\<close>

record ('a, 'f, 'v) queue =
  wrapped :: 'f
  queryState :: "('a, 'f) QueryState"
  invocations :: "'v invocation list"

definition queryQueue :: "'f \<Rightarrow> ('a, 'f, 'v) queue" where
  "queryQueue f =
     \<lparr>wrapped = f,
      queryState = \<lparr>numberOfCalls = 0, numberOfFailures = 0,
                    currentActiveCalls = {}, calls = Map.empty\<rparr>,
      invocations = []\<rparr>"

text \<open>
  \<open>createPromiseExecutor\<close>, run by \<open>new Promise\<close> when the returned function is called with
  \<open>args\<close> at time \<open>now\<close>. \<open>retryCallback\<close> is an \<open>async\<close> function: it never throws to
  its caller, so the \<open>catch\<close> around it is never entered and the new promise is pending.
\<close>

definition createPromiseExecutor ::
  "'a \<Rightarrow> int \<Rightarrow> ('a, 'f, 'v) queue \<Rightarrow> ('a, 'f, 'v) queue" where
  "createPromiseExecutor as now q =
     (let qs = queryState q;
          idx = numberOfCalls qs;
          qs1 = qs\<lparr>calls := (calls qs)(numberOfCalls qs \<mapsto>
                   \<lparr>args = as, timestamp = now, func = wrapped q, retries = Some 0\<rparr>)\<rparr>;
          qs2 = qs1\<lparr>numberOfCalls := numberOfCalls qs1 + 1\<rparr>
      in q\<lparr>queryState := qs2,
           invocations := invocations q @
             [\<lparr>callIndex = idx, phase = Waiting (retryCallback qs2), promise = Pending\<rparr>]\<rparr>)"

text \<open>
  The events of the event loop: a call of the queued function; a timer firing; the unit of
  work of an invocation fulfilling with a value, or failing (the source never looks at the
  error); and the queued rest of a timer callback being resumed.
\<close>

datatype ('a, 'v) event =
    Invoke 'a int
  | Fire nat
  | FuncOk nat 'v
  | FuncErr nat
  | Resume nat

text \<open>
  One event runs one synchronous segment of the source to its end, which is what the
  single-threaded event loop guarantees; between two events any other enabled event may
  come first. Real time is left out: a timeout is recorded in the phase \<open>Waiting\<close>, and a
  waiting timer may fire at any later moment. An event that is not enabled (no such
  invocation, or the invocation is in another phase) has no successor state.
\<close>

definition outcome :: "(error + rat) option \<Rightarrow> phase" where
  "outcome r = (case r of None \<Rightarrow> Finished | Some (Inl e) \<Rightarrow> Crashed e | Some (Inr d) \<Rightarrow> Waiting d)"

definition step :: "('a, 'v) event \<Rightarrow> ('a, 'f, 'v) queue \<Rightarrow> ('a, 'f, 'v) queue option" where
  "step ev q =
     (case ev of
        Invoke as now \<Rightarrow> Some (createPromiseExecutor as now q)
      | Fire p \<Rightarrow>
          (if p < length (invocations q) then
             (let i = invocations q ! p in
              case phase i of
                Waiting d \<Rightarrow>
                  Some (q\<lparr>queryState := attemptCallbackRun_begin (callIndex i) (queryState q),
                          invocations := (invocations q)[p := i\<lparr>phase := Running\<rparr>]\<rparr>)
              | _ \<Rightarrow> None)
           else None)
      | FuncOk p v \<Rightarrow>
          (if p < length (invocations q) then
             (let i = invocations q ! p in
              case phase i of
                Running \<Rightarrow>
                  Some (q\<lparr>queryState := attemptCallbackRun_end (callIndex i) (queryState q),
                          invocations := (invocations q)
                            [p := i\<lparr>phase := Returned, promise := resolve v (promise i)\<rparr>]\<rparr>)
              | _ \<Rightarrow> None)
           else None)
      | FuncErr p \<Rightarrow>
          (if p < length (invocations q) then
             (let i = invocations q ! p in
              case phase i of
                Running \<Rightarrow>
                  (let (qs', r) = handleRunErrorsAndRetries (callIndex i) (queryState q)
                   in Some (q\<lparr>queryState := qs',
                              invocations := (invocations q)[p := i\<lparr>phase := outcome (Some r)\<rparr>]\<rparr>))
              | _ \<Rightarrow> None)
           else None)
      | Resume p \<Rightarrow>
          (if p < length (invocations q) then
             (let i = invocations q ! p in
              case phase i of
                Returned \<Rightarrow>
                  (let (qs', r) = afterAttempt (callIndex i) (queryState q)
                   in Some (q\<lparr>queryState := qs',
                              invocations := (invocations q)[p := i\<lparr>phase := outcome r\<rparr>]\<rparr>))
              | _ \<Rightarrow> None)
           else None))"

text \<open>
  Running a sequence of events from a state, and the states a queue made by
  \<open>queryQueue(func)\<close> can be in.
\<close>

fun run :: "('a, 'v) event list \<Rightarrow> ('a, 'f, 'v) queue \<Rightarrow> ('a, 'f, 'v) queue option" where
  "run [] q = Some q"
| "run (ev # evs) q = (case step ev q of None \<Rightarrow> None | Some q' \<Rightarrow> run evs q')"

definition reachable :: "'f \<Rightarrow> ('a, 'f, 'v) queue \<Rightarrow> bool" where
  "reachable f q = (\<exists>evs. run evs (queryQueue f) = Some q)"

section \<open>Event sequences and states used in the examples\<close>

text \<open>
  The timer of invocation \<open>p\<close> fires and its unit of work fails, \<open>n\<close> times over.
\<close>

primrec failRounds :: "nat \<Rightarrow> nat \<Rightarrow> ('a, 'v) event list" where
  "failRounds p 0 = []"
| "failRounds p (Suc n) = failRounds p n @ [Fire p, FuncErr p]"

text \<open>
  A queue with a single invocation at index 0 whose record and the failure counter both
  hold \<open>n\<close>: the shape of the queue while one call keeps failing.
\<close>

definition singleCall :: "'a \<Rightarrow> int \<Rightarrow> 'f \<Rightarrow> int \<Rightarrow> int set \<Rightarrow> phase \<Rightarrow> ('a, 'f, 'v) queue" where
  "singleCall as now f n A ph =
     \<lparr>wrapped = f,
      queryState = \<lparr>numberOfCalls = 1, numberOfFailures = n, currentActiveCalls = A,
                    calls = [0 \<mapsto> \<lparr>args = as, timestamp = now, func = f, retries = Some n\<rparr>]\<rparr>,
      invocations = [\<lparr>callIndex = 0, phase = ph, promise = Pending\<rparr>]\<rparr>"

text \<open>A state with no call at all and a given failure counter.\<close>

definition idle :: "int \<Rightarrow> (string, unit) QueryState" where
  "idle n = \<lparr>numberOfCalls = 0, numberOfFailures = n, currentActiveCalls = {}, calls = Map.empty\<rparr>"

text \<open>
  Three invocations \<open>a\<close>, \<open>b\<close>, \<open>c\<close>. The unit of work of \<open>a\<close> fulfils while that of
  \<open>b\<close> is still in flight, then \<open>c\<close> is invoked; the first attempt of \<open>b\<close> fails, \<open>c\<close>
  succeeds at its first attempt, and the second attempt of \<open>b\<close> succeeds.
\<close>

definition sharedIndexTrace :: "(string, string) event list" where
  "sharedIndexTrace =
     [Invoke ''a'' 0, Fire 0, Invoke ''b'' 2, Fire 1, FuncOk 0 ''ra'', Resume 0,
      Invoke ''c'' 6, FuncErr 1, Fire 2, FuncOk 2 ''rc'', Resume 2,
      Fire 1, FuncOk 1 ''rb'', Resume 1]"

text \<open>Five invocations whose first attempts all start and then all fail.\<close>

definition saturatedTrace :: "(string, string) event list" where
  "saturatedTrace =
     [Invoke ''a'' 0, Invoke ''b'' 0, Invoke ''c'' 0, Invoke ''d'' 0, Invoke ''e'' 0,
      Fire 0, Fire 1, Fire 2, Fire 3, Fire 4,
      FuncErr 0, FuncErr 1, FuncErr 2, FuncErr 3, FuncErr 4]"

section \<open>Basic facts about the segments and about runs\<close>

lemmas segment_defs =
  createPromiseExecutor_def retryCallback_def backOff_def areActiveCallsFull_def Math_pow2_def
  attemptCallbackRun_begin_def attemptCallbackRun_end_def afterAttempt_def
  handleRunErrorsAndRetries_def retriesOrZero_def outcome_def resolve_def
  MAX_ACTIVE_CALLS_def MAX_RETRIES_PER_DAY_def

lemma run_append:
  "run (evs @ evs') q = (case run evs q of None \<Rightarrow> None | Some q' \<Rightarrow> run evs' q')"
  by (induction evs arbitrary: q) (auto split: option.splits)

lemma run_snoc:
  "run (evs @ [ev]) q = (case run evs q of None \<Rightarrow> None | Some q' \<Rightarrow> step ev q')"
  by (simp add: run_append split: option.splits)


lemma Math_pow2_mono: "0 \<le> a \<Longrightarrow> a \<le> b \<Longrightarrow> Math_pow2 a \<le> Math_pow2 b"
  by (simp add: Math_pow2_def power_increasing)

lemma backOff_le_8: "backOff qs \<le> 8"
proof (cases "0 \<le> numberOfFailures qs")
  case True
  have "Math_pow2 (if numberOfFailures qs > 3 then 3 else numberOfFailures qs) \<le> Math_pow2 3"
    using True by (intro Math_pow2_mono) auto
  then show ?thesis by (simp add: backOff_def Math_pow2_def)
next
  case False
  then have "backOff qs = 1 / 2 ^ nat (- numberOfFailures qs)"
    by (simp add: backOff_def Math_pow2_def)
  also have "\<dots> \<le> 1" by simp
  finally show ?thesis by simp
qed

lemma backOff_mono:
  "0 \<le> numberOfFailures qs \<Longrightarrow> numberOfFailures qs \<le> numberOfFailures qs' \<Longrightarrow>
   backOff qs \<le> backOff qs'"
  unfolding backOff_def by (intro Math_pow2_mono) auto

lemma backOff_const: "3 \<le> numberOfFailures qs \<Longrightarrow> backOff qs = 8"
  by (simp add: backOff_def Math_pow2_def)

subsection \<open>One call that keeps failing\<close>

lemma singleCall_invoke:
  "step (Invoke as now) (queryQueue f) = Some (singleCall as now f 0 {} (Waiting 1))"
  by (simp add: step_def queryQueue_def singleCall_def createPromiseExecutor_def retryCallback_def
      backOff_def areActiveCallsFull_def Math_pow2_def MAX_ACTIVE_CALLS_def)

lemma singleCall_fire:
  "step (Fire 0) (singleCall as now f n A (Waiting d)) = Some (singleCall as now f n (insert 0 A) Running)"
  by (simp add: step_def singleCall_def attemptCallbackRun_begin_def)

lemma singleCall_fail:
  "n \<le> 300 \<Longrightarrow> step (FuncErr 0) (singleCall as now f n {0} Running) =
     Some (singleCall as now f (n + 1) {0} (Waiting (Math_pow2 (if 3 < n + 1 then 3 else n + 1))))"
  by (simp add: step_def singleCall_def handleRunErrorsAndRetries_def retriesOrZero_def
      MAX_RETRIES_PER_DAY_def retryCallback_def backOff_def areActiveCallsFull_def
      MAX_ACTIVE_CALLS_def outcome_def)

lemma singleCall_exhaust:
  "300 < n \<Longrightarrow> step (FuncErr 0) (singleCall as now f n {0} Running) =
     Some \<lparr>wrapped = f,
      queryState = \<lparr>numberOfCalls = 1, numberOfFailures = n, currentActiveCalls = {},
                    calls = Map.empty\<rparr>,
      invocations = [\<lparr>callIndex = 0, phase = Crashed MaxRetriesExceeded, promise = Pending\<rparr>]\<rparr>"
  by (simp add: step_def singleCall_def handleRunErrorsAndRetries_def retriesOrZero_def
      MAX_RETRIES_PER_DAY_def outcome_def)

lemma always_failing_run:
  "n \<le> 301 \<Longrightarrow>
   run (Invoke as now # failRounds 0 n) (queryQueue f :: ('a, 'f, 'v) queue) =
     Some (singleCall as now f (int n) (if n = 0 then {} else {0})
            (Waiting (Math_pow2 (if 3 < int n then 3 else int n))))"
proof (induction n)
  case 0
  show ?case by (simp add: singleCall_invoke Math_pow2_def)
next
  case (Suc n)
  from Suc.prems have n: "int n \<le> 300" by simp
  from Suc.prems have "n \<le> 301" by simp
  note IH = Suc.IH [OF this]
  have ins: "insert 0 (if n = 0 then {} else {0::int}) = {0}" by simp
  have "run (Invoke as now # failRounds 0 (Suc n)) (queryQueue f :: ('a, 'f, 'v) queue) =
     run ((Invoke as now # failRounds 0 n) @ [Fire 0, FuncErr 0]) (queryQueue f :: ('a, 'f, 'v) queue)"
    by simp
  also have "\<dots> = Some (singleCall as now f (int n + 1) {0}
       (Waiting (Math_pow2 (if 3 < int n + 1 then 3 else int n + 1))))"
    unfolding run_append IH by (simp add: singleCall_fire ins singleCall_fail [OF n])
  also have "int n + 1 = int (Suc n)" by simp
  finally show ?case by simp
qed

lemma run_301:
  "run (Invoke as now # failRounds 0 301) (queryQueue f :: ('a, 'f, 'v) queue) =
     Some (singleCall as now f 301 {0} (Waiting 8))"
  using always_failing_run [of 301 as now f] by (simp add: Math_pow2_def)

lemma run_302:
  "run (Invoke as now # failRounds 0 302) (queryQueue f :: ('a, 'f, 'v) queue) =
     Some \<lparr>wrapped = f,
      queryState = \<lparr>numberOfCalls = 1, numberOfFailures = 301, currentActiveCalls = {},
                    calls = Map.empty\<rparr>,
      invocations = [\<lparr>callIndex = 0, phase = Crashed MaxRetriesExceeded, promise = Pending\<rparr>]\<rparr>"
proof -
  have "failRounds 0 302 = (failRounds 0 301 @ [Fire 0, FuncErr 0] :: ('a, 'v) event list)"
    using failRounds.simps(2) [of 0 301] by simp
  then have "run (Invoke as now # failRounds 0 302) (queryQueue f :: ('a, 'f, 'v) queue) =
     run ((Invoke as now # failRounds 0 301) @ [Fire 0, FuncErr 0]) (queryQueue f :: ('a, 'f, 'v) queue)"
    by simp
  also have "\<dots> = run [Fire 0, FuncErr 0] (singleCall as now f 301 {0} (Waiting 8))"
    unfolding run_append run_301 by simp
  finally show ?thesis
    by (simp add: singleCall_fire singleCall_exhaust)
qed

subsection \<open>A timer callback that has thrown is never heard of again\<close>

lemma crashed_step:
  "step ev q = Some q' \<Longrightarrow> p < length (invocations q) \<Longrightarrow> phase (invocations q ! p) = Crashed e \<Longrightarrow>
   p < length (invocations q') \<and> invocations q' ! p = invocations q ! p"
  by (cases ev)
     (auto simp: step_def createPromiseExecutor_def Let_def nth_append nth_list_update
           split: if_splits phase.splits prod.splits)

lemma crashed_run:
  "run evs q = Some q' \<Longrightarrow> p < length (invocations q) \<Longrightarrow> phase (invocations q ! p) = Crashed e \<Longrightarrow>
   p < length (invocations q') \<and> invocations q' ! p = invocations q ! p"
proof (induction evs arbitrary: q)
  case Nil
  then show ?case by simp
next
  case (Cons ev evs)
  from Cons.prems(1) obtain q1 where s: "step ev q = Some q1" and r: "run evs q1 = Some q'"
    by (auto split: option.splits)
  from crashed_step [OF s Cons.prems(2,3)]
  have "p < length (invocations q1)" "invocations q1 ! p = invocations q ! p" by simp_all
  with Cons.IH [OF r] Cons.prems(3) show ?case by simp
qed

subsection \<open>No promise is ever rejected\<close>

text \<open>
  \<open>reject\<close> is mentioned only in the \<open>catch\<close> of \<open>createPromiseExecutor\<close>, which is never
  entered; accordingly no event turns a promise into a rejected one.
\<close>

lemma step_not_rejected:
  "step ev q = Some q' \<Longrightarrow>
   \<forall>i < length (invocations q). promise (invocations q ! i) \<noteq> Rejected e \<Longrightarrow>
   \<forall>i < length (invocations q'). promise (invocations q' ! i) \<noteq> Rejected e"
  by (cases ev)
     (auto simp: step_def createPromiseExecutor_def Let_def nth_append nth_list_update resolve_def
           split: if_splits phase.splits prod.splits promise.splits)

lemma run_not_rejected:
  "run evs q = Some q' \<Longrightarrow>
   \<forall>i < length (invocations q). promise (invocations q ! i) \<noteq> Rejected e \<Longrightarrow>
   \<forall>i < length (invocations q'). promise (invocations q' ! i) \<noteq> Rejected e"
proof (induction evs arbitrary: q)
  case Nil
  then show ?case by simp
next
  case (Cons ev evs)
  from Cons.prems(1) obtain q1 where s: "step ev q = Some q1" and r: "run evs q1 = Some q'"
    by (auto split: option.splits)
  from step_not_rejected [OF s Cons.prems(2)] Cons.IH [OF r] show ?case by blast
qed

lemma reachable_not_rejected:
  "reachable f q \<Longrightarrow> i < length (invocations q) \<Longrightarrow> promise (invocations q ! i) \<noteq> Rejected e"
proof -
  assume "reachable f q" and i: "i < length (invocations q)"
  then obtain evs where "run evs (queryQueue f) = Some q"
    by (auto simp: reachable_def)
  from run_not_rejected [OF this, of e] i show ?thesis
    by (simp add: queryQueue_def)
qed

subsection \<open>The timeout while the failure counter is not negative\<close>

lemma backOff_values: "0 \<le> numberOfFailures qs \<Longrightarrow> backOff qs \<in> {1, 2, 4, 8}"
proof -
  assume "0 \<le> numberOfFailures qs"
  then consider "numberOfFailures qs = 0" | "numberOfFailures qs = 1" | "numberOfFailures qs = 2"
    | "3 \<le> numberOfFailures qs" by linarith
  then show ?thesis
    by cases (simp_all add: backOff_def Math_pow2_def)
qed

lemma retryCallback_formula:
  "0 \<le> numberOfFailures qs \<Longrightarrow>
   retryCallback qs = 2 ^ nat (min (numberOfFailures qs) 3)
     + (if 5 \<le> card (currentActiveCalls qs) then 100 else 0)"
  by (simp add: retryCallback_def backOff_def Math_pow2_def areActiveCallsFull_def
      MAX_ACTIVE_CALLS_def min_def)

subsection \<open>The active calls while no two invocations share an index\<close>

text \<open>
  An event never changes the index an invocation carries. As long as the indices of all
  invocations are different, the index of a running invocation, and of one that waits on
  its timer with a stored retry count above zero, is among the active calls.
\<close>

lemma step_callIndex:
  "step ev q = Some q' \<Longrightarrow>
   length (invocations q) \<le> length (invocations q') \<and>
   (\<forall>p < length (invocations q). callIndex (invocations q' ! p) = callIndex (invocations q ! p))"
  by (cases ev)
     (auto simp: step_def createPromiseExecutor_def Let_def nth_append nth_list_update
           split: if_splits phase.splits prod.splits)

lemma distinct_index:
  "distinct (map callIndex (invocations q)) \<Longrightarrow> p < length (invocations q) \<Longrightarrow>
   p' < length (invocations q) \<Longrightarrow>
   callIndex (invocations q ! p) = callIndex (invocations q ! p') \<Longrightarrow> p = p'"
  using nth_eq_iff_index_eq [of "map callIndex (invocations q)" p p'] by simp

lemma step_distinct_back:
  assumes s: "step ev q = Some q'" and d: "distinct (map callIndex (invocations q'))"
  shows "distinct (map callIndex (invocations q))"
proof -
  from step_callIndex [OF s]
  have "map callIndex (invocations q) = take (length (invocations q)) (map callIndex (invocations q'))"
    by (intro nth_equalityI) auto
  with d show ?thesis by (metis distinct_take)
qed


lemma step_keeps_failed_active:
  assumes s: "step ev q = Some q'"
    and d: "distinct (map callIndex (invocations q'))"
    and J: "\<forall>p < length (invocations q).
       (phase (invocations q ! p) = Running
        \<or> (\<exists>d c. phase (invocations q ! p) = Waiting d
              \<and> calls (queryState q) (callIndex (invocations q ! p)) = Some c
              \<and> 0 < retriesOrZero c))
       \<longrightarrow> callIndex (invocations q ! p) \<in> currentActiveCalls (queryState q)"
  shows "\<forall>p < length (invocations q').
       (phase (invocations q' ! p) = Running
        \<or> (\<exists>d c. phase (invocations q' ! p) = Waiting d
              \<and> calls (queryState q') (callIndex (invocations q' ! p)) = Some c
              \<and> 0 < retriesOrZero c))
       \<longrightarrow> callIndex (invocations q' ! p) \<in> currentActiveCalls (queryState q')"
proof (cases ev)
  case (Invoke as now)
  with s have q': "q' = createPromiseExecutor as now q" by (simp add: step_def)
  have fresh: "callIndex (invocations q ! p) \<noteq> numberOfCalls (queryState q)"
    if "p < length (invocations q)" for p
  proof -
    from that have "callIndex (invocations q ! p) \<in> callIndex ` set (invocations q)"
      by simp
    moreover from d have "numberOfCalls (queryState q) \<notin> callIndex ` set (invocations q)"
      unfolding q' by (simp add: createPromiseExecutor_def Let_def)
    ultimately show ?thesis by auto
  qed
  show ?thesis
    using J fresh unfolding q'
    by (auto simp: createPromiseExecutor_def Let_def nth_append retriesOrZero_def less_Suc_eq)
next
  case (Fire k)
  with s J show ?thesis
    by (auto simp: step_def Let_def attemptCallbackRun_begin_def nth_list_update
             split: if_splits phase.splits)
next
  case (FuncOk k v)
  with s have k: "k < length (invocations q)" and len: "length (invocations q') = length (invocations q)"
    by (auto simp: step_def Let_def split: if_splits phase.splits)
  have other: "callIndex (invocations q ! p) \<noteq> callIndex (invocations q ! k)"
    if "p < length (invocations q)" "p \<noteq> k" for p
    using distinct_index [OF step_distinct_back [OF s d] that(1) k] that(2) by blast
  from s FuncOk J other show ?thesis
    by (auto simp: step_def Let_def attemptCallbackRun_end_def nth_list_update
             split: if_splits phase.splits)
next
  case (FuncErr k)
  with s have k: "k < length (invocations q)" and run: "phase (invocations q ! k) = Running"
    by (auto simp: step_def Let_def split: if_splits phase.splits)
  have other: "callIndex (invocations q ! p) \<noteq> callIndex (invocations q ! k)"
    if "p < length (invocations q)" "p \<noteq> k" for p
    using distinct_index [OF step_distinct_back [OF s d] that(1) k] that(2) by blast
  from J k run have act: "callIndex (invocations q ! k) \<in> currentActiveCalls (queryState q)"
    by blast
  from s FuncErr J other act show ?thesis
    by (auto simp: step_def Let_def handleRunErrorsAndRetries_def outcome_def nth_list_update
             split: if_splits phase.splits option.splits)
next
  case (Resume k)
  with s J show ?thesis
    by (auto simp: step_def Let_def afterAttempt_def handleRunErrorsAndRetries_def outcome_def
                   nth_list_update
             split: if_splits phase.splits option.splits)
qed


lemma run_distinct_back:
  "run evs q = Some q' \<Longrightarrow> distinct (map callIndex (invocations q')) \<Longrightarrow>
   distinct (map callIndex (invocations q))"
proof (induction evs arbitrary: q)
  case Nil
  then show ?case by simp
next
  case (Cons ev evs)
  from Cons.prems(1) obtain q1 where s: "step ev q = Some q1" and r: "run evs q1 = Some q'"
    by (auto split: option.splits)
  from Cons.IH [OF r Cons.prems(2)] step_distinct_back [OF s] show ?case by blast
qed

lemma run_keeps_failed_active:
  "run evs q = Some q' \<Longrightarrow> distinct (map callIndex (invocations q')) \<Longrightarrow>
   \<forall>p < length (invocations q).
       (phase (invocations q ! p) = Running
        \<or> (\<exists>d c. phase (invocations q ! p) = Waiting d
              \<and> calls (queryState q) (callIndex (invocations q ! p)) = Some c
              \<and> 0 < retriesOrZero c))
       \<longrightarrow> callIndex (invocations q ! p) \<in> currentActiveCalls (queryState q) \<Longrightarrow>
   \<forall>p < length (invocations q').
       (phase (invocations q' ! p) = Running
        \<or> (\<exists>d c. phase (invocations q' ! p) = Waiting d
              \<and> calls (queryState q') (callIndex (invocations q' ! p)) = Some c
              \<and> 0 < retriesOrZero c))
       \<longrightarrow> callIndex (invocations q' ! p) \<in> currentActiveCalls (queryState q')"
proof (induction evs arbitrary: q)
  case Nil
  then show ?case by simp
next
  case (Cons ev evs)
  from Cons.prems(1) obtain q1 where s: "step ev q = Some q1" and r: "run evs q1 = Some q'"
    by (auto split: option.splits)
  from run_distinct_back [OF r Cons.prems(2)]
  have d1: "distinct (map callIndex (invocations q1))" .
  from Cons.IH [OF r Cons.prems(2) step_keeps_failed_active [OF s d1 Cons.prems(3)]]
  show ?case .
qed

lemma unshared_failed_call_stays_active:
  assumes "reachable f q" and "distinct (map callIndex (invocations q))"
    and "p < length (invocations q)" and "phase (invocations q ! p) = Waiting d"
    and "calls (queryState q) (callIndex (invocations q ! p)) = Some c" and "0 < retriesOrZero c"
  shows "callIndex (invocations q ! p) \<in> currentActiveCalls (queryState q)"
proof -
  from assms(1) obtain evs where r: "run evs (queryQueue f) = Some q"
    by (auto simp: reachable_def)
  have "\<forall>p < length (invocations q).
       (phase (invocations q ! p) = Running
        \<or> (\<exists>d c. phase (invocations q ! p) = Waiting d
              \<and> calls (queryState q) (callIndex (invocations q ! p)) = Some c
              \<and> 0 < retriesOrZero c))
       \<longrightarrow> callIndex (invocations q ! p) \<in> currentActiveCalls (queryState q)"
    by (rule run_keeps_failed_active [OF r assms(2)]) (simp add: queryQueue_def)
  with assms(3-6) show ?thesis by blast
qed

text \<open>
  Five calls that have each failed once: all wait on a timer, none runs, and yet
  \<open>areActiveCallsFull\<close> holds.
\<close>

lemma saturated_without_running:
  "map_option (\<lambda>q. (map phase (invocations q), currentActiveCalls (queryState q),
                       areActiveCallsFull (queryState q)))
       (run saturatedTrace (queryQueue () :: (string, unit, string) queue))
     = Some ([Waiting 102, Waiting 104, Waiting 108, Waiting 108, Waiting 108], {0, 1, 2, 3, 4}, True)"
  by (simp add: saturatedTrace_def step_def queryQueue_def segment_defs insert_commute)

section \<open>The facade\<close>

text \<open>
  Claim C6. \<open>queryQueue(func)\<close> starts from one fresh state (both counters zero, no active
  call, no record, no invocation), and every invocation of the returned function works on
  the state that all earlier events of that queue have left. An invocation is always
  admitted; it takes the value of \<open>numberOfCalls\<close> before the increment as its index, stores
  there a record holding its arguments, the time and the wrapped function with
  \<open>retries = 0\<close>, adds one to \<open>numberOfCalls\<close>, touches neither the failure counter nor the
  active calls, and returns a pending promise whose timer for that index is set by
  \<open>retryCallback\<close>.
\<close>

theorem queryQueue_invocation:
  "queryState (queryQueue f :: ('a, 'f, 'v) queue) =
     \<lparr>numberOfCalls = 0, numberOfFailures = 0, currentActiveCalls = {}, calls = Map.empty\<rparr>
   \<and> invocations (queryQueue f :: ('a, 'f, 'v) queue) = []
   \<and> run (evs @ [Invoke as now]) (queryQueue f :: ('a, 'f, 'v) queue) =
       map_option (createPromiseExecutor as now) (run evs (queryQueue f))
   \<and> step (Invoke as now) q = Some (createPromiseExecutor as now q)
   \<and> calls (queryState (createPromiseExecutor as now q)) =
       (calls (queryState q))(numberOfCalls (queryState q) \<mapsto>
          \<lparr>args = as, timestamp = now, func = wrapped q, retries = Some 0\<rparr>)
   \<and> numberOfCalls (queryState (createPromiseExecutor as now q)) = numberOfCalls (queryState q) + 1
   \<and> numberOfFailures (queryState (createPromiseExecutor as now q)) = numberOfFailures (queryState q)
   \<and> currentActiveCalls (queryState (createPromiseExecutor as now q)) = currentActiveCalls (queryState q)
   \<and> wrapped (createPromiseExecutor as now q) = wrapped q
   \<and> invocations (createPromiseExecutor as now (q :: ('a, 'f, 'v) queue)) =
       invocations q @
         [\<lparr>callIndex = numberOfCalls (queryState q),
           phase = Waiting (retryCallback (queryState (createPromiseExecutor as now q))),
           promise = Pending\<rparr>]"
proof -
  have shared: "run (evs @ [Invoke as now]) (queryQueue f :: ('a, 'f, 'v) queue) =
       map_option (createPromiseExecutor as now) (run evs (queryQueue f))"
    by (simp add: run_snoc step_def split: option.splits)
  have init: "queryState (queryQueue f :: ('a, 'f, 'v) queue) =
     \<lparr>numberOfCalls = 0, numberOfFailures = 0, currentActiveCalls = {}, calls = Map.empty\<rparr>
   \<and> invocations (queryQueue f :: ('a, 'f, 'v) queue) = []"
    by (simp add: queryQueue_def)
  have inv: "step (Invoke as now) q = Some (createPromiseExecutor as now q)"
    by (simp add: step_def)
  show ?thesis
    using shared init inv by (simp add: createPromiseExecutor_def Let_def)
qed


section \<open>The dual use of \<open>numberOfCalls\<close>\<close>

text \<open>
  Claim C4. The tail of \<open>attemptCallbackRun\<close>, which runs exactly when an attempt has
  succeeded, takes one off \<open>numberOfCalls\<close> and leaves every call record in place, and so
  does the recovery check that follows it. Hence the index is handed out twice: when a
  first invocation (arguments \<open>first\<close>) has completed before a second one (arguments
  \<open>second\<close>) is made, \<open>numberOfCalls\<close> is back at 0 with the first record still stored at
  index 0, both invocations carry index 0, and the second record replaces the first.
\<close>

theorem index_reuse:
  "numberOfCalls (attemptCallbackRun_end index qs) = numberOfCalls qs - 1
   \<and> calls (attemptCallbackRun_end index qs) = calls qs
   \<and> calls (fst (afterAttempt index qs)) = calls qs
   \<and> map_option (\<lambda>q. (map callIndex (invocations q), numberOfCalls (queryState q), calls (queryState q) 0))
        (run [Invoke ''first'' 10] (queryQueue () :: (string, unit, string) queue))
      = Some ([0], 1, Some \<lparr>args = ''first'', timestamp = 10, func = (), retries = Some 0\<rparr>)
   \<and> map_option (\<lambda>q. (map callIndex (invocations q), numberOfCalls (queryState q), calls (queryState q) 0))
        (run [Invoke ''first'' 10, Fire 0, FuncOk 0 ''done'', Resume 0]
          (queryQueue () :: (string, unit, string) queue))
      = Some ([0], 0, Some \<lparr>args = ''first'', timestamp = 10, func = (), retries = Some 0\<rparr>)
   \<and> map_option (\<lambda>q. (map callIndex (invocations q), numberOfCalls (queryState q), calls (queryState q) 0))
        (run [Invoke ''first'' 10, Fire 0, FuncOk 0 ''done'', Resume 0, Invoke ''second'' 20]
          (queryQueue () :: (string, unit, string) queue))
      = Some ([0, 0], 1, Some \<lparr>args = ''second'', timestamp = 20, func = (), retries = Some 0\<rparr>)"
proof -
  have a: "numberOfCalls (attemptCallbackRun_end index qs) = numberOfCalls qs - 1
   \<and> calls (attemptCallbackRun_end index qs) = calls qs"
    by (simp add: attemptCallbackRun_end_def)
  have b: "calls (fst (afterAttempt index qs)) = calls qs"
    by (simp add: afterAttempt_def handleRunErrorsAndRetries_def split: option.splits)
  show ?thesis using a b
    by (simp add: step_def queryQueue_def segment_defs)
qed

section \<open>The delay passed to the timer\<close>

text \<open>
  Claim C8. With the saturation status held fixed, the timeout computed by
  \<open>retryCallback\<close> does not decrease when a failure counter that is at least 0 grows; it is
  the same for all failure counters from 3 on; and in every state (so in every reachable
  one) it is at most 8 + 100.
\<close>

theorem delay_monotone_bounded:
  "(0 \<le> numberOfFailures qs \<and> numberOfFailures qs \<le> numberOfFailures qs'
      \<and> areActiveCallsFull qs = areActiveCallsFull qs'
      \<longrightarrow> retryCallback qs \<le> retryCallback qs')
   \<and> (3 \<le> numberOfFailures qs \<and> 3 \<le> numberOfFailures qs'
      \<and> areActiveCallsFull qs = areActiveCallsFull qs'
      \<longrightarrow> retryCallback qs = retryCallback qs')
   \<and> retryCallback qs \<le> 8 + 100"
proof (intro conjI impI)
  assume "0 \<le> numberOfFailures qs \<and> numberOfFailures qs \<le> numberOfFailures qs'
      \<and> areActiveCallsFull qs = areActiveCallsFull qs'"
  then show "retryCallback qs \<le> retryCallback qs'"
    using backOff_mono [of qs qs'] by (simp add: retryCallback_def)
next
  assume "3 \<le> numberOfFailures qs \<and> 3 \<le> numberOfFailures qs'
      \<and> areActiveCallsFull qs = areActiveCallsFull qs'"
  then show "retryCallback qs = retryCallback qs'"
    using backOff_const [of qs] backOff_const [of qs'] by (simp add: retryCallback_def)
next
  show "retryCallback qs \<le> 8 + 100"
    using backOff_le_8 [of qs] by (simp add: retryCallback_def)
qed

theorem delay_monotone_bounded_witness:
  "(0 \<le> numberOfFailures (idle 1) \<and> numberOfFailures (idle 1) \<le> numberOfFailures (idle 2)
      \<and> areActiveCallsFull (idle 1) = areActiveCallsFull (idle 2))
   \<and> retryCallback (idle 1) = 2 \<and> retryCallback (idle 2) = 4
   \<and> retryCallback (idle 1) \<le> retryCallback (idle 2)
   \<and> (3 \<le> numberOfFailures (idle 3) \<and> 3 \<le> numberOfFailures (idle 7)
      \<and> areActiveCallsFull (idle 3) = areActiveCallsFull (idle 7))
   \<and> retryCallback (idle 3) = retryCallback (idle 7)"
  using delay_monotone_bounded [of "idle 1" "idle 2"] delay_monotone_bounded [of "idle 3" "idle 7"]
  by (simp add: idle_def segment_defs)

section \<open>A unit of work that always fails\<close>

text \<open>
  Claim C1, evaluated on the code. One invocation whose unit of work fails at every
  attempt: after the 302nd failure the record and the active entry are deleted and the
  timer callback has thrown \<open>Max retries exceeded\<close>, but the promise handed to the caller is
  still pending; and whatever events follow, it is pending for ever.
\<close>

theorem exhaustion_never_rejects:
  "map_option (\<lambda>q. (map phase (invocations q), map promise (invocations q),
                     calls (queryState q) 0, currentActiveCalls (queryState q)))
     (run (Invoke as now # failRounds 0 302) (queryQueue f :: ('a, 'f, 'v) queue))
     = Some ([Crashed MaxRetriesExceeded], [Pending], None, {})
   \<and> (\<forall>evs. map_option (\<lambda>q. promise (invocations q ! 0))
          (run ((Invoke as now # failRounds 0 302) @ evs) (queryQueue f :: ('a, 'f, 'v) queue))
        \<in> {None, Some Pending})"
proof -
  let ?dead = "\<lparr>wrapped = f,
      queryState = \<lparr>numberOfCalls = 1, numberOfFailures = 301, currentActiveCalls = {},
                    calls = Map.empty\<rparr>,
      invocations = [\<lparr>callIndex = 0, phase = Crashed MaxRetriesExceeded, promise = Pending\<rparr>]\<rparr>
      :: ('a, 'f, 'v) queue"
  have later: "map_option (\<lambda>q. promise (invocations q ! 0)) (run evs ?dead) \<in> {None, Some Pending}"
    for evs :: "('a, 'v) event list"
  proof (cases "run evs ?dead")
    case None
    then show ?thesis by simp
  next
    case (Some q')
    from crashed_run [OF Some, of 0 MaxRetriesExceeded]
    have "invocations q' ! 0 = \<lparr>callIndex = 0, phase = Crashed MaxRetriesExceeded, promise = Pending\<rparr>"
      by simp
    with Some show ?thesis by simp
  qed
  show ?thesis
    unfolding run_append run_302 using later by simp
qed

text \<open>
  Claim C2, evaluated on the code. For the same invocation: after 301 failed attempts the
  stored \<open>retries\<close> is 301 and a further timer is set; that timer fires and starts attempt
  number 302; only the failure of attempt 302 ends the call.
\<close>

theorem always_failing_attempts:
  "map_option (\<lambda>q. (map phase (invocations q), map_option retries (calls (queryState q) 0)))
     (run (Invoke as now # failRounds 0 301) (queryQueue f :: ('a, 'f, 'v) queue))
     = Some ([Waiting 8], Some (Some 301))
   \<and> map_option (\<lambda>q. map phase (invocations q))
     (run ((Invoke as now # failRounds 0 301) @ [Fire 0]) (queryQueue f :: ('a, 'f, 'v) queue))
     = Some [Running]
   \<and> map_option (\<lambda>q. (map phase (invocations q), calls (queryState q) 0))
     (run (Invoke as now # failRounds 0 302) (queryQueue f :: ('a, 'f, 'v) queue))
     = Some ([Crashed MaxRetriesExceeded], None)"
  unfolding run_append run_301 run_302
  by (simp add: singleCall_fire) (simp add: singleCall_def)

section \<open>The failure path\<close>




section \<open>The failure counter when two invocations share an index\<close>

text \<open>
  Claim C5, evaluated on the code. In \<open>sharedIndexTrace\<close> the invocations \<open>b\<close> and \<open>c\<close>
  both carry index 1. After the one failure (of \<open>b\<close>) the counter is 1. The invocation
  \<open>c\<close> then succeeds at its first attempt, and resuming its timer callback takes the
  counter from 1 to 0. The later success of \<open>b\<close> takes it to \<open>-1\<close>: a state with a
  negative failure counter is reachable.
\<close>

theorem failure_counter_negative:
  "map_option (numberOfFailures \<circ> queryState)
     (run (take 8 sharedIndexTrace) (queryQueue () :: (string, unit, string) queue)) = Some 1
   \<and> map_option (\<lambda>q. (numberOfFailures (queryState q), map phase (invocations q)))
     (run (take 10 sharedIndexTrace) (queryQueue () :: (string, unit, string) queue))
     = Some (1, [Finished, Waiting 2, Returned])
   \<and> map_option (numberOfFailures \<circ> queryState)
     (run (take 11 sharedIndexTrace) (queryQueue () :: (string, unit, string) queue)) = Some 0
   \<and> map_option (numberOfFailures \<circ> queryState)
     (run sharedIndexTrace (queryQueue () :: (string, unit, string) queue)) = Some (- 1)
   \<and> (\<exists>q :: (string, unit, string) queue. reachable () q \<and> numberOfFailures (queryState q) < 0)"
proof -
  have neg: "map_option (numberOfFailures \<circ> queryState)
     (run sharedIndexTrace (queryQueue () :: (string, unit, string) queue)) = Some (- 1)"
    by (simp add: sharedIndexTrace_def step_def queryQueue_def segment_defs)
  then obtain q :: "(string, unit, string) queue"
    where "run sharedIndexTrace (queryQueue ()) = Some q" "numberOfFailures (queryState q) = - 1"
    by auto
  then have "reachable () q \<and> numberOfFailures (queryState q) < 0"
    unfolding reachable_def by auto
  then have ex: "\<exists>q :: (string, unit, string) queue. reachable () q \<and> numberOfFailures (queryState q) < 0"
    by blast
  have pre: "map_option (numberOfFailures \<circ> queryState)
     (run (take 8 sharedIndexTrace) (queryQueue () :: (string, unit, string) queue)) = Some 1
   \<and> map_option (\<lambda>q. (numberOfFailures (queryState q), map phase (invocations q)))
     (run (take 10 sharedIndexTrace) (queryQueue () :: (string, unit, string) queue))
     = Some (1, [Finished, Waiting 2, Returned])
   \<and> map_option (numberOfFailures \<circ> queryState)
     (run (take 11 sharedIndexTrace) (queryQueue () :: (string, unit, string) queue)) = Some 0"
    by (simp add: sharedIndexTrace_def step_def queryQueue_def segment_defs)
  from pre neg ex show ?thesis by blast
qed

text \<open>
  Claim C3, evaluated on the code. An invocation made once \<open>sharedIndexTrace\<close> has left
  the failure counter at \<open>-1\<close> gets the timeout \<open>Math.pow(2, -1)\<close>, one half, which is none
  of 1, 2, 4, 8. (While the failure counter is not negative the timeout is as the claim
  has it: \<open>backOff_values\<close>, \<open>retryCallback_formula\<close>.)
\<close>

theorem fractional_delay:
  "map_option (\<lambda>q. (numberOfFailures (queryState q), map phase (invocations q)))
     (run (sharedIndexTrace @ [Invoke ''d'' 20]) (queryQueue () :: (string, unit, string) queue))
     = Some (- 1, [Finished, Finished, Finished, Waiting (1 / 2)])
   \<and> (1 / 2 :: rat) \<notin> {1, 2, 4, 8}"
  by (simp add: sharedIndexTrace_def step_def queryQueue_def segment_defs)

section \<open>What the active calls count\<close>

text \<open>
  Claim C10, evaluated on the code. In \<open>sharedIndexTrace\<close> the invocations \<open>b\<close> and \<open>c\<close>
  both carry index 1. After eight events \<open>b\<close> has failed once and waits on its retry timer,
  with index 1 among the active calls. Then the timer of \<open>c\<close> fires and the unit of work of
  \<open>c\<close> fulfils: index 1 is taken out of the active calls while \<open>b\<close> is still waiting, its
  promise pending, no attempt of \<open>b\<close> having succeeded and the stored retry count being 1.
  (With all indices different a failed call that waits stays among the active calls,
  \<open>unshared_failed_call_stays_active\<close>, and waiting calls alone can fill them,
  \<open>saturated_without_running\<close>.)
\<close>

theorem waiting_call_leaves_active:
  "map_option (\<lambda>q. (map callIndex (invocations q), map phase (invocations q),
                     map promise (invocations q), map_option retries (calls (queryState q) 1),
                     currentActiveCalls (queryState q)))
     (run (take 8 sharedIndexTrace) (queryQueue () :: (string, unit, string) queue))
     = Some ([0, 1, 1], [Finished, Waiting 2, Waiting 1], [Resolved ''ra'', Pending, Pending],
             Some (Some 1), {1})
   \<and> map_option (\<lambda>q. (map phase (invocations q), currentActiveCalls (queryState q)))
     (run (take 9 sharedIndexTrace) (queryQueue () :: (string, unit, string) queue))
     = Some ([Finished, Waiting 2, Running], {1})
   \<and> map_option (\<lambda>q. (map callIndex (invocations q), map phase (invocations q),
                     map promise (invocations q), map_option retries (calls (queryState q) 1),
                     currentActiveCalls (queryState q)))
     (run (take 10 sharedIndexTrace) (queryQueue () :: (string, unit, string) queue))
     = Some ([0, 1, 1], [Finished, Waiting 2, Returned], [Resolved ''ra'', Pending, Resolved ''rc''],
             Some (Some 1), {})"
  by (auto simp add: sharedIndexTrace_def step_def queryQueue_def segment_defs)

end
